theory Spec2Isabelle
  imports Main
begin

section \<open>Strings, bytes and exceptions\<close>

text \<open>
  A Python \<open>str\<close> is a sequence of Unicode code points; it is modelled as a list of
  naturals. Text that the program builds from digits and punctuation only (formatted
  timestamps, file names) is built as an Isabelle \<open>string\<close> and embedded with \<open>str\<close>.
  File names of the log directory are Isabelle strings as well: their characters are the
  code points below 256. A \<open>bytes\<close> value (a datagram payload) is a list of 8-bit
  characters.
\<close>

type_synonym pystr = "nat list"

type_synonym bytes = "char list"

definition str :: "string \<Rightarrow> pystr" where
  "str s = map of_char s"

text \<open>The exceptions that the modelled code can raise.\<close>

datatype error =
    ValueError
  | UnicodeEncodeError
  | QueueFull
  | RequestValidationError

text \<open>\<open>s.rstrip("\n")\<close>: drop every trailing character that occurs in the argument.\<close>

definition rstrip :: "'a list \<Rightarrow> 'a list \<Rightarrow> 'a list" where
  "rstrip chars s = rev (dropWhile (\<lambda>c. c \<in> set chars) (rev s))"

text \<open>
  \<open>s.replace(old, new)\<close>: occurrences of \<open>old\<close> are replaced from the left, without
  overlap; an empty \<open>old\<close> matches before every character and at the end.
\<close>

function replace_nonempty :: "'a list \<Rightarrow> 'a list \<Rightarrow> 'a list \<Rightarrow> 'a list" where
  "replace_nonempty old new [] = []"
| "replace_nonempty old new (c # cs) =
     (if old \<noteq> [] \<and> take (length old) (c # cs) = old
      then new @ replace_nonempty old new (drop (length old) (c # cs))
      else c # replace_nonempty old new cs)"
  by pat_completeness auto
termination
  by (relation "measure (\<lambda>(old, new, s). length s)") auto

definition replace :: "'a list \<Rightarrow> 'a list \<Rightarrow> 'a list \<Rightarrow> 'a list" where
  "replace old new s =
     (if old = [] then new @ concat (map (\<lambda>c. c # new) s) else replace_nonempty old new s)"

text \<open>\<open>"%0wd" % n\<close> for a non-negative \<open>n\<close>: decimal digits, zero-padded to width \<open>w\<close>.\<close>

definition digit_char :: "nat \<Rightarrow> char" where
  "digit_char d = ''0123456789'' ! d"

fun dec :: "nat \<Rightarrow> string" where
  "dec n = (if n < 10 then [digit_char n] else dec (n div 10) @ [digit_char (n mod 10)])"

declare dec.simps [simp del]

definition zpad :: "nat \<Rightarrow> nat \<Rightarrow> string" where
  "zpad w n = replicate (w - length (dec n)) (CHR ''0'') @ dec n"

section \<open>Dates and times\<close>

text \<open>
  \<open>datetime.date\<close> and its subclass \<open>datetime.datetime\<close>. Every \<open>datetime\<close> of the
  program comes from \<open>datetime.now(timezone.utc)\<close>, so the record stands for an aware
  value whose \<open>tzinfo\<close> is UTC, and \<open>astimezone(timezone.utc)\<close> returns it unchanged.
\<close>

record date =
  year :: nat
  month :: nat
  day :: nat

record datetime = date +
  hour :: nat
  minute :: nat
  second :: nat
  microsecond :: nat

definition is_leap :: "nat \<Rightarrow> bool" where
  "is_leap y = (y mod 4 = 0 \<and> (y mod 100 \<noteq> 0 \<or> y mod 400 = 0))"

definition days_in_month :: "nat \<Rightarrow> nat \<Rightarrow> nat" where
  "days_in_month y m =
     (if m = 2 \<and> is_leap y then 29
      else if m = 2 then 28
      else if m = 4 \<or> m = 6 \<or> m = 9 \<or> m = 11 then 30
      else 31)"

definition days_before_year :: "nat \<Rightarrow> int" where
  "days_before_year y =
     (let y1 = int y - 1 in y1 * 365 + y1 div 4 - y1 div 100 + y1 div 400)"

definition days_before_month :: "nat \<Rightarrow> nat \<Rightarrow> int" where
  "days_before_month y m = int (sum_list (map (days_in_month y) [1..<m]))"

text \<open>The range checks of the \<open>date\<close> and \<open>datetime\<close> constructors.\<close>

definition valid_date :: "'a date_scheme \<Rightarrow> bool" where
  "valid_date d =
     (1 \<le> year d \<and> year d \<le> 9999 \<and> 1 \<le> month d \<and> month d \<le> 12 \<and>
      1 \<le> day d \<and> day d \<le> days_in_month (year d) (month d))"


text \<open>\<open>date.toordinal()\<close>: the day number, 1 for 0001-01-01.\<close>

definition toordinal :: "'a date_scheme \<Rightarrow> int" where
  "toordinal d =
     days_before_year (year d) + days_before_month (year d) (month d) + int (day d)"

definition astimezone_utc :: "datetime \<Rightarrow> datetime" where
  "astimezone_utc t = t"

text \<open>
  \<open>datetime.isoformat()\<close> of an aware UTC value: the fraction is printed only when the
  microsecond field is not zero, and the offset is always \<open>+00:00\<close>.
\<close>

definition isoformat :: "datetime \<Rightarrow> string" where
  "isoformat t =
     zpad 4 (year t) @ ''-'' @ zpad 2 (month t) @ ''-'' @ zpad 2 (day t) @ ''T'' @
     zpad 2 (hour t) @ '':'' @ zpad 2 (minute t) @ '':'' @ zpad 2 (second t) @
     (if microsecond t \<noteq> 0 then ''.'' @ zpad 6 (microsecond t) else []) @ ''+00:00''"

text \<open>
  \<open>strftime("%Y-%m-%d.log")\<close> and \<open>strftime("%d/%m %H:%M:%S")\<close>. The year is printed
  with four digits, which is what every platform prints for the years from 1000 on.
\<close>

definition strftime_log_name :: "datetime \<Rightarrow> string" where
  "strftime_log_name t =
     zpad 4 (year t) @ ''-'' @ zpad 2 (month t) @ ''-'' @ zpad 2 (day t) @ ''.log''"

definition strftime_telegram :: "datetime \<Rightarrow> string" where
  "strftime_telegram t =
     zpad 2 (day t) @ ''/'' @ zpad 2 (month t) @ '' '' @
     zpad 2 (hour t) @ '':'' @ zpad 2 (minute t) @ '':'' @ zpad 2 (second t)"

section \<open>Log entries\<close>

record LogEntry =
  timestamp :: datetime
  message :: pystr

text \<open>
  The timestamp text shared by \<open>LogEntry.to_dict\<close> and \<open>LogStorage._write_to_file\<close>:
  \<open>timestamp.astimezone(timezone.utc).isoformat().replace("+00:00", "Z")\<close>.
\<close>

definition timestamp_text :: "datetime \<Rightarrow> pystr" where
  "timestamp_text t = str (replace ''+00:00'' ''Z'' (isoformat (astimezone_utc t)))"

text \<open>A \<open>Dict[str, str]\<close> with its keys in insertion order.\<close>

type_synonym pydict = "(string \<times> pystr) list"

definition to_dict :: "LogEntry \<Rightarrow> pydict" where
  "to_dict e = [(''timestamp'', timestamp_text (timestamp e)), (''message'', message e)]"

section \<open>Bounded containers\<close>

text \<open>
  \<open>collections.deque(maxlen=n)\<close>: a negative \<open>maxlen\<close> is refused by the constructor;
  \<open>append\<close> adds at the right and, when the length then exceeds \<open>maxlen\<close>, removes the
  leftmost element.
\<close>

record 'a deque =
  maxlen :: nat
  elems :: "'a list"

definition deque_new :: "int \<Rightarrow> error + 'a deque" where
  "deque_new n = (if n < 0 then Inl ValueError else Inr \<lparr>maxlen = nat n, elems = []\<rparr>)"

definition deque_append :: "'a \<Rightarrow> 'a deque \<Rightarrow> 'a deque" where
  "deque_append x d =
     (let xs = elems d @ [x]
      in d\<lparr>elems := (if maxlen d < length xs then tl xs else xs)\<rparr>)"

definition deque_clear :: "'a deque \<Rightarrow> 'a deque" where
  "deque_clear d = d\<lparr>elems := []\<rparr>"

text \<open>
  \<open>asyncio.Queue(maxsize)\<close>: a queue whose \<open>maxsize\<close> is zero or negative is never
  full; \<open>put_nowait\<close> raises \<open>QueueFull\<close> on a full queue and leaves it as it is.
\<close>

record 'a queue =
  maxsize :: int
  qitems :: "'a list"

definition full :: "'a queue \<Rightarrow> bool" where
  "full q = (if maxsize q \<le> 0 then False else maxsize q \<le> int (length (qitems q)))"

definition put_nowait :: "'a \<Rightarrow> 'a queue \<Rightarrow> error + 'a queue" where
  "put_nowait x q = (if full q then Inl QueueFull else Inr (q\<lparr>qitems := qitems q @ [x]\<rparr>))"

section \<open>The log directory\<close>

text \<open>
  The part of the file system that the storage acts on: the entries of the log directory
  (name and inode), the text held by each inode, and the open file objects (descriptor and
  inode). The directory holds regular files only. Removing a name leaves an open
  descriptor and its inode alone. Opening, writing and unlinking succeed; what is modelled
  of their failures is what depends on the program's own data: writing through a closed
  file object, and encoding a lone surrogate as UTF-8.
\<close>

type_synonym inode = nat

record filesystem =
  entries :: "(string \<times> inode) list"
  contents :: "inode \<Rightarrow> pystr"
  descriptors :: "(nat \<times> inode) list"
  next_inode :: nat
  next_fd :: nat

definition is_surrogate :: "nat \<Rightarrow> bool" where
  "is_surrogate c = (0xD800 \<le> c \<and> c \<le> 0xDFFF)"

text \<open>\<open>path.open("a", encoding="utf-8")\<close>: the file is created empty when the name is new.\<close>

definition fs_open_append :: "string \<Rightarrow> filesystem \<Rightarrow> nat \<times> filesystem" where
  "fs_open_append name f =
     (let fd = next_fd f in
      case map_of (entries f) name of
        Some i \<Rightarrow>
          (fd, f\<lparr>descriptors := descriptors f @ [(fd, i)], next_fd := Suc fd\<rparr>)
      | None \<Rightarrow>
          (let i = next_inode f in
           (fd, f\<lparr>entries := entries f @ [(name, i)], contents := (contents f)(i := []),
                   descriptors := descriptors f @ [(fd, i)],
                   next_inode := Suc i, next_fd := Suc fd\<rparr>)))"

definition fs_close :: "nat \<Rightarrow> filesystem \<Rightarrow> filesystem" where
  "fs_close fd f = f\<lparr>descriptors := filter (\<lambda>(d, i). d \<noteq> fd) (descriptors f)\<rparr>"

text \<open>\<open>handle.write(text)\<close> followed by \<open>handle.flush()\<close>.\<close>

definition fs_write_flush :: "nat \<Rightarrow> pystr \<Rightarrow> filesystem \<Rightarrow> error + filesystem" where
  "fs_write_flush fd text f =
     (case map_of (descriptors f) fd of
        None \<Rightarrow> Inl ValueError
      | Some i \<Rightarrow>
          if list_ex is_surrogate text then Inl UnicodeEncodeError
          else Inr (f\<lparr>contents := (contents f)(i := contents f i @ text)\<rparr>))"

definition fs_unlink :: "string \<Rightarrow> filesystem \<Rightarrow> filesystem" where
  "fs_unlink name f = f\<lparr>entries := filter (\<lambda>(n, i). n \<noteq> name) (entries f)\<rparr>"

definition endswith :: "'a list \<Rightarrow> 'a list \<Rightarrow> bool" where
  "endswith s suffix =
     (length suffix \<le> length s \<and> drop (length s - length suffix) s = suffix)"

text \<open>\<open>log_dir.glob("*.log")\<close>: the names of the directory that end in \<open>.log\<close>.\<close>

definition glob_log :: "filesystem \<Rightarrow> string list" where
  "glob_log f = filter (\<lambda>n. endswith n ''.log'') (map fst (entries f))"

text \<open>The text of the file that a name of the directory refers to.\<close>

definition file_text :: "filesystem \<Rightarrow> string \<Rightarrow> pystr option" where
  "file_text f name = map_option (contents f) (map_of (entries f) name)"

text \<open>\<open>Path.stem\<close>: the name without its last suffix.\<close>

fun rfind :: "'a \<Rightarrow> 'a list \<Rightarrow> nat option" where
  "rfind c [] = None"
| "rfind c (x # xs) =
     (case rfind c xs of
        Some i \<Rightarrow> Some (Suc i)
      | None \<Rightarrow> if x = c then Some 0 else None)"

definition stem :: "string \<Rightarrow> string" where
  "stem name =
     (case rfind (CHR ''.'') name of
        None \<Rightarrow> name
      | Some i \<Rightarrow> if 0 < i \<and> i < length name - 1 then take i name else name)"

section \<open>Parsing a date from a file name\<close>

text \<open>
  \<open>datetime.strptime(s, "%Y-%m-%d").date()\<close>. The format becomes the regular expression
  \<open>(\d\d\d\d)-(1[0-2]|0[1-9]|[1-9])-(3[0-1]|[1-2]\d|0[1-9]|[1-9]| [1-9])\<close>, matched at the
  start of the text with the alternatives tried in this order; text left after the match,
  and a date that the \<open>date\<close> constructor refuses, raise \<open>ValueError\<close> (here \<open>None\<close>).
\<close>

definition is_digit :: "char \<Rightarrow> bool" where
  "is_digit c = (48 \<le> (of_char c :: nat) \<and> (of_char c :: nat) \<le> 57)"

definition digit_val :: "char \<Rightarrow> nat" where
  "digit_val c = of_char c - 48"

definition in_range :: "char \<Rightarrow> char \<Rightarrow> char \<Rightarrow> bool" where
  "in_range lo hi c = ((of_char lo :: nat) \<le> of_char c \<and> (of_char c :: nat) \<le> of_char hi)"

text \<open>The matches of the month and of the day group, in the order of their alternatives.\<close>

definition month_alts :: "string \<Rightarrow> (nat \<times> string) list" where
  "month_alts s =
     (case s of
        c1 # c2 # r \<Rightarrow>
          (if c1 = CHR ''1'' \<and> in_range (CHR ''0'') (CHR ''2'') c2
           then [(10 + digit_val c2, r)] else []) @
          (if c1 = CHR ''0'' \<and> in_range (CHR ''1'') (CHR ''9'') c2
           then [(digit_val c2, r)] else []) @
          (if in_range (CHR ''1'') (CHR ''9'') c1 then [(digit_val c1, c2 # r)] else [])
      | [c1] \<Rightarrow> (if in_range (CHR ''1'') (CHR ''9'') c1 then [(digit_val c1, [])] else [])
      | [] \<Rightarrow> [])"

definition day_alts :: "string \<Rightarrow> (nat \<times> string) list" where
  "day_alts s =
     (case s of
        c1 # c2 # r \<Rightarrow>
          (if c1 = CHR ''3'' \<and> in_range (CHR ''0'') (CHR ''1'') c2
           then [(30 + digit_val c2, r)] else []) @
          (if in_range (CHR ''1'') (CHR ''2'') c1 \<and> is_digit c2
           then [(10 * digit_val c1 + digit_val c2, r)] else []) @
          (if c1 = CHR ''0'' \<and> in_range (CHR ''1'') (CHR ''9'') c2
           then [(digit_val c2, r)] else []) @
          (if in_range (CHR ''1'') (CHR ''9'') c1 then [(digit_val c1, c2 # r)] else []) @
          (if c1 = CHR '' '' \<and> in_range (CHR ''1'') (CHR ''9'') c2
           then [(digit_val c2, r)] else [])
      | [c1] \<Rightarrow> (if in_range (CHR ''1'') (CHR ''9'') c1 then [(digit_val c1, [])] else [])
      | [] \<Rightarrow> [])"

text \<open>
  The first way to match the whole expression: the first month alternative after which
  a hyphen and a day follow, with the first day alternative that matches there.
\<close>

definition match_month_day :: "string \<Rightarrow> (nat \<times> nat \<times> string) option" where
  "match_month_day s =
     (case concat (map (\<lambda>(m, r).
              case r of
                c # r' \<Rightarrow>
                  (if c = CHR ''-'' then map (\<lambda>(d, r''). (m, d, r'')) (day_alts r') else [])
              | [] \<Rightarrow> [])
            (month_alts s)) of
        [] \<Rightarrow> None
      | x # _ \<Rightarrow> Some x)"

definition strptime_date :: "string \<Rightarrow> date option" where
  "strptime_date s =
     (case s of
        y1 # y2 # y3 # y4 # c # r \<Rightarrow>
          if is_digit y1 \<and> is_digit y2 \<and> is_digit y3 \<and> is_digit y4 \<and> c = CHR ''-''
          then (case match_month_day r of
                  None \<Rightarrow> None
                | Some (m, d, rest) \<Rightarrow>
                    (let dt = \<lparr>year = 1000 * digit_val y1 + 100 * digit_val y2 +
                                      10 * digit_val y3 + digit_val y4,
                               month = m, day = d\<rparr>
                     in if rest \<noteq> [] then None
                        else if valid_date dt then Some dt else None))
          else None
      | _ \<Rightarrow> None)"

section \<open>Configuration and the external notifier\<close>

record AppConfig =
  udp_port :: int
  web_port :: int
  max_memory_logs :: int
  log_dir :: string
  keep_days :: int
  allowed_origins :: "string list"
  write_to_file :: bool
  udp_whitelist :: "string list"
  websocket_token :: "string option"

text \<open>\<open>AppConfig()\<close>: every field at its default.\<close>

definition default_config :: AppConfig where
  "default_config =
     \<lparr>udp_port = 5140, web_port = 8080, max_memory_logs = 10000, log_dir = ''./logs'',
      keep_days = 3, allowed_origins = [''*''], write_to_file = True, udp_whitelist = [],
      websocket_token = None\<rparr>"

text \<open>
  Of \<open>TelegramNotifier\<close>, the state that \<open>send_message\<close> reads and writes: the enabled
  flag and the outgoing queue.
\<close>

record TelegramNotifier =
  enabled :: bool
  outgoing :: "pystr queue"

definition send_message :: "pystr \<Rightarrow> TelegramNotifier \<Rightarrow> TelegramNotifier" where
  "send_message m n =
     (if \<not> enabled n then n
      else case put_nowait m (outgoing n) of
             Inl _ \<Rightarrow> n
           | Inr q \<Rightarrow> n\<lparr>outgoing := q\<rparr>)"

section \<open>The log storage\<close>

text \<open>
  The fields of \<open>LogStorage\<close>, with the log directory it owns. A subscriber's queue is
  listed with the identity of the queue object (\<open>unsubscribe\<close> compares by identity);
  \<open>file_handle\<close> refers to an open file object by its descriptor. The lock serialises
  the methods and no method suspends while it holds the lock, so each method is one step
  on this state. The reading of the clock that a method takes is an argument.
\<close>

record LogStorage =
  config :: AppConfig
  buffer :: "LogEntry deque"
  listeners :: "(nat \<times> LogEntry queue) list"
  next_queue :: nat
  current_log_file :: "string option"
  file_handle :: "nat option"
  telegram_notifier :: "TelegramNotifier option"
  fs :: filesystem

definition LogStorage_init ::
    "AppConfig \<Rightarrow> TelegramNotifier option \<Rightarrow> filesystem \<Rightarrow> error + LogStorage" where
  "LogStorage_init cfg tn f =
     (case deque_new (max_memory_logs cfg) of
        Inl e \<Rightarrow> Inl e
      | Inr b \<Rightarrow>
          Inr \<lparr>config = cfg, buffer = b, listeners = [], next_queue = 0,
               current_log_file = None, file_handle = None, telegram_notifier = tn,
               fs = f\<rparr>)"

text \<open>\<open>_notify\<close>: a non-blocking put on every listed queue; a full queue is passed over.\<close>

definition LogStorage_notify :: "LogEntry \<Rightarrow> LogStorage \<Rightarrow> LogStorage" where
  "LogStorage_notify entry s =
     s\<lparr>listeners :=
         map (\<lambda>(h, q). case put_nowait entry q of Inl _ \<Rightarrow> (h, q) | Inr q' \<Rightarrow> (h, q'))
           (listeners s)\<rparr>"

definition subscribe :: "int \<Rightarrow> LogStorage \<Rightarrow> nat \<times> LogStorage" where
  "subscribe max_queue_size s =
     (let h = next_queue s in
      (h, s\<lparr>listeners := listeners s @ [(h, \<lparr>maxsize = max_queue_size, qitems = []\<rparr>)],
            next_queue := Suc h\<rparr>))"

fun remove_listener :: "nat \<Rightarrow> (nat \<times> 'a) list \<Rightarrow> (nat \<times> 'a) list" where
  "remove_listener h [] = []"
| "remove_listener h ((k, q) # ls) = (if k = h then ls else (k, q) # remove_listener h ls)"

definition unsubscribe :: "nat \<Rightarrow> LogStorage \<Rightarrow> LogStorage" where
  "unsubscribe h s =
     (if h \<in> set (map fst (listeners s))
      then s\<lparr>listeners := remove_listener h (listeners s)\<rparr> else s)"

text \<open>\<open>xs[i:]\<close> for a list and an integer \<open>i\<close>: a negative \<open>i\<close> counts from the end.\<close>

definition slice_from :: "int \<Rightarrow> 'a list \<Rightarrow> 'a list" where
  "slice_from i xs =
     (if i < 0 then drop (nat (int (length xs) + i)) xs else drop (nat i) xs)"

definition get_recent :: "int \<Rightarrow> LogStorage \<Rightarrow> pydict list" where
  "get_recent limit s = map to_dict (slice_from (- limit) (elems (buffer s)))"

definition clear_buffer :: "LogStorage \<Rightarrow> LogStorage" where
  "clear_buffer s = s\<lparr>buffer := deque_clear (buffer s)\<rparr>"

definition LogStorage_get_log_file_path :: "datetime \<Rightarrow> string" where
  "LogStorage_get_log_file_path t = strftime_log_name (astimezone_utc t)"

definition LogStorage_rotate_log_file :: "string \<Rightarrow> LogStorage \<Rightarrow> LogStorage" where
  "LogStorage_rotate_log_file new_path s =
     (let f1 = (case file_handle s of Some h \<Rightarrow> fs_close h (fs s) | None \<Rightarrow> fs s);
          (h', f2) = fs_open_append new_path f1
      in s\<lparr>current_log_file := Some new_path, file_handle := Some h', fs := f2\<rparr>)"

text \<open>The line that \<open>_write_to_file\<close> writes for an entry.\<close>

definition log_line :: "LogEntry \<Rightarrow> pystr" where
  "log_line entry =
     str ''['' @ timestamp_text (timestamp entry) @ str ''] '' @ message entry @ [10]"

definition LogStorage_write_to_file :: "LogEntry \<Rightarrow> LogStorage \<Rightarrow> error option \<times> LogStorage" where
  "LogStorage_write_to_file entry s =
     (let log_path = LogStorage_get_log_file_path (timestamp entry);
          s1 = (if current_log_file s \<noteq> Some log_path
                then LogStorage_rotate_log_file log_path s else s)
      in case file_handle s1 of
           None \<Rightarrow> (None, s1)
         | Some h \<Rightarrow>
             (case fs_write_flush h (log_line entry) (fs s1) of
                Inl e \<Rightarrow> (Some e, s1)
              | Inr f \<Rightarrow> (None, s1\<lparr>fs := f\<rparr>)))"

text \<open>The text that \<open>add_entry\<close> hands to the notifier.\<close>

definition telegram_text :: "LogEntry \<Rightarrow> pystr" where
  "telegram_text entry =
     str ''<code>['' @ str (strftime_telegram (timestamp entry)) @ str '']</code> '' @
     message entry"

text \<open>
  \<open>add_entry(message)\<close> at the clock reading \<open>now\<close>. An exception of the file write
  leaves the method after the buffer and the queues have been updated, so the result
  carries the state in both cases.
\<close>

definition add_entry ::
    "datetime \<Rightarrow> pystr \<Rightarrow> LogStorage \<Rightarrow> (error + LogEntry) \<times> LogStorage" where
  "add_entry now msg s =
     (let entry = \<lparr>timestamp = now, message = rstrip [10] msg\<rparr>;
          s1 = s\<lparr>buffer := deque_append entry (buffer s)\<rparr>;
          s2 = LogStorage_notify entry s1
      in case (if write_to_file (config s2) then LogStorage_write_to_file entry s2
               else (None, s2)) of
           (Some e, s3) \<Rightarrow> (Inl e, s3)
         | (None, s3) \<Rightarrow>
             (Inr entry,
              s3\<lparr>telegram_notifier :=
                   map_option (send_message (telegram_text entry)) (telegram_notifier s3)\<rparr>))"

text \<open>A sequence of \<open>add_entry\<close> calls, each with its clock reading, one after the other.\<close>

definition add_entries :: "(datetime \<times> pystr) list \<Rightarrow> LogStorage \<Rightarrow> LogStorage" where
  "add_entries calls s = foldl (\<lambda>s' (now, msg). snd (add_entry now msg s')) s calls"

definition close :: "LogStorage \<Rightarrow> LogStorage" where
  "close s =
     (case file_handle s of
        Some h \<Rightarrow> s\<lparr>file_handle := None, fs := fs_close h (fs s)\<rparr>
      | None \<Rightarrow> s)"

text \<open>\<open>cleanup_files()\<close> at the clock reading \<open>now\<close>.\<close>

definition cleanup_files :: "datetime \<Rightarrow> LogStorage \<Rightarrow> LogStorage" where
  "cleanup_files now s =
     (if \<not> write_to_file (config s) then s
      else if keep_days (config s) \<le> 0 then s
      else
        (let cutoff = toordinal now - keep_days (config s) in
         s\<lparr>fs :=
             foldl (\<lambda>f name.
                      case strptime_date (stem name) of
                        None \<Rightarrow> f
                      | Some file_date \<Rightarrow>
                          if toordinal file_date < cutoff then fs_unlink name f else f)
               (fs s) (glob_log (fs s))\<rparr>))"

section \<open>The HTTP query and the datagram listener\<close>

text \<open>\<open>read_logs\<close>: \<open>limit\<close> is \<open>Query(500, ge=1, le=5000)\<close>.\<close>

definition read_logs :: "int option \<Rightarrow> LogStorage \<Rightarrow> error + pydict list" where
  "read_logs limit s =
     (let l = (case limit of None \<Rightarrow> 500 | Some l \<Rightarrow> l)
      in if l < 1 \<or> 5000 < l then Inl RequestValidationError else Inr (get_recent l s))"

text \<open>
  \<open>data.decode("utf-8", errors="replace")\<close> on the values of the bytes. A byte that cannot
  start a sequence, and the longest prefix of a sequence that a following byte or the end
  of the data breaks, is replaced by U+FFFD.
\<close>

definition is_cont :: "nat \<Rightarrow> bool" where
  "is_cont b = (0x80 \<le> b \<and> b < 0xC0)"

function decode_utf8 :: "nat list \<Rightarrow> pystr" where
  "decode_utf8 [] = []"
| "decode_utf8 (ch # s) =
     (if ch < 0x80 then ch # decode_utf8 s
      else if ch < 0xC2 then 0xFFFD # decode_utf8 s
      else if ch < 0xE0 then
        (case s of
           [] \<Rightarrow> [0xFFFD]
         | ch2 # s2 \<Rightarrow>
             if \<not> is_cont ch2 then 0xFFFD # decode_utf8 s
             else (ch mod 32 * 64 + ch2 mod 64) # decode_utf8 s2)
      else if ch < 0xF0 then
        (case s of
           [] \<Rightarrow> [0xFFFD]
         | ch2 # s2 \<Rightarrow>
             if \<not> is_cont ch2 \<or> (ch = 0xE0 \<and> ch2 < 0xA0) \<or> (ch = 0xED \<and> 0xA0 \<le> ch2)
             then 0xFFFD # decode_utf8 s
             else (case s2 of
                     [] \<Rightarrow> [0xFFFD]
                   | ch3 # s3 \<Rightarrow>
                       if \<not> is_cont ch3 then 0xFFFD # decode_utf8 s2
                       else (ch mod 16 * 4096 + ch2 mod 64 * 64 + ch3 mod 64) #
                            decode_utf8 s3))
      else if ch < 0xF5 then
        (case s of
           [] \<Rightarrow> [0xFFFD]
         | ch2 # s2 \<Rightarrow>
             if \<not> is_cont ch2 \<or> (ch = 0xF0 \<and> ch2 < 0x90) \<or> (ch = 0xF4 \<and> 0x90 \<le> ch2)
             then 0xFFFD # decode_utf8 s
             else (case s2 of
                     [] \<Rightarrow> [0xFFFD]
                   | ch3 # s3 \<Rightarrow>
                       if \<not> is_cont ch3 then 0xFFFD # decode_utf8 s2
                       else (case s3 of
                               [] \<Rightarrow> [0xFFFD]
                             | ch4 # s4 \<Rightarrow>
                                 if \<not> is_cont ch4 then 0xFFFD # decode_utf8 s3
                                 else (ch mod 8 * 262144 + ch2 mod 64 * 4096 +
                                       ch3 mod 64 * 64 + ch4 mod 64) # decode_utf8 s4)))
      else 0xFFFD # decode_utf8 s)"
  by pat_completeness auto
termination
  by (relation "measure length") auto

definition decode :: "bytes \<Rightarrow> pystr" where
  "decode bs = decode_utf8 (map of_char bs)"

text \<open>
  \<open>str.splitlines()\<close>: the text is cut at every line boundary (a carriage return followed
  by a line feed is one boundary), the boundaries are dropped, and no empty last line is
  produced.
\<close>

definition is_linebreak :: "nat \<Rightarrow> bool" where
  "is_linebreak c =
     (c = 0x0A \<or> c = 0x0B \<or> c = 0x0C \<or> c = 0x0D \<or> c = 0x1C \<or> c = 0x1D \<or> c = 0x1E \<or>
      c = 0x85 \<or> c = 0x2028 \<or> c = 0x2029)"

fun splitlines_from :: "pystr \<Rightarrow> pystr \<Rightarrow> pystr list" where
  "splitlines_from line [] = (if line = [] then [] else [line])"
| "splitlines_from line [c] =
     (if is_linebreak c then [line] else splitlines_from (line @ [c]) [])"
| "splitlines_from line (c # d # cs) =
     (if c = 0x0D \<and> d = 0x0A then line # splitlines_from [] cs
      else if is_linebreak c then line # splitlines_from [] (d # cs)
      else splitlines_from (line @ [c]) (d # cs))"

definition splitlines :: "pystr \<Rightarrow> pystr list" where
  "splitlines s = splitlines_from [] s"

text \<open>
  \<open>datagram_received(data, (host, port))\<close>: the messages for which it creates an
  \<open>add_entry\<close> task, in the order of creation. The event loop runs the tasks in that
  order, each to its end.
\<close>

definition datagram_received :: "AppConfig \<Rightarrow> bytes \<Rightarrow> string \<Rightarrow> pystr list" where
  "datagram_received cfg data host =
     (if udp_whitelist cfg \<noteq> [] \<and> host \<notin> set (udp_whitelist cfg) then []
      else
        (let message = decode data;
             lines = (case splitlines message of [] \<Rightarrow> [message] | l # ls \<Rightarrow> l # ls)
         in filter (\<lambda>line. line \<noteq> []) lines))"

section \<open>Sequences of calls\<close>

text \<open>
  The calls that a client of the storage can make, and the state after a sequence of them.
  \<open>get_recent\<close> only reads the state.
\<close>

datatype call =
    AddEntry datetime pystr
  | Subscribe int
  | Unsubscribe nat
  | GetRecent int
  | ClearBuffer
  | Close
  | CleanupFiles datetime

fun step :: "LogStorage \<Rightarrow> call \<Rightarrow> LogStorage" where
  "step s (AddEntry now msg) = snd (add_entry now msg s)"
| "step s (Subscribe n) = snd (subscribe n s)"
| "step s (Unsubscribe h) = unsubscribe h s"
| "step s (GetRecent limit) = s"
| "step s ClearBuffer = clear_buffer s"
| "step s Close = close s"
| "step s (CleanupFiles now) = cleanup_files now s"


text \<open>The entry that \<open>add_entry\<close> builds from a clock reading and a message.\<close>

definition entry_of :: "datetime \<times> pystr \<Rightarrow> LogEntry" where
  "entry_of c = \<lparr>timestamp = fst c, message = rstrip [10] (snd c)\<rparr>"

text \<open>
  The file writer's handle discipline: the open file objects of the log directory are
  exactly the one that \<open>file_handle\<close> refers to, if any, and a descriptor that is in use
  is not handed out again.
\<close>

definition writer_inv :: "LogStorage \<Rightarrow> bool" where
  "writer_inv s =
     (map fst (descriptors (fs s)) = (case file_handle s of None \<Rightarrow> [] | Some h \<Rightarrow> [h]) \<and>
      list_all (\<lambda>(d, i). d < next_fd (fs s)) (descriptors (fs s)))"

text \<open>
  A file of the directory is due for deletion at the day number \<open>cutoff\<close>: its name ends
  in \<open>.log\<close>, the stem parses as a date, and the date lies before the cutoff.
\<close>

definition expired :: "int \<Rightarrow> string \<Rightarrow> bool" where
  "expired cutoff name =
     (endswith name ''.log'' \<and>
      (case strptime_date (stem name) of
         None \<Rightarrow> False
       | Some file_date \<Rightarrow> toordinal file_date < cutoff))"

subsection \<open>Reading a serialized entry back\<close>





subsection \<open>Concrete inputs\<close>

definition empty_fs :: filesystem where
  "empty_fs = \<lparr>entries = [], contents = (\<lambda>i. []), descriptors = [], next_inode = 0, next_fd = 0\<rparr>"

definition march_10 :: datetime where
  "march_10 = \<lparr>year = 2024, month = 3, day = 10, hour = 12, minute = 30, second = 45,
                microsecond = 123456\<rparr>"

definition march_11 :: datetime where
  "march_11 = \<lparr>year = 2024, month = 3, day = 11, hour = 0, minute = 0, second = 1,
                microsecond = 0\<rparr>"

text \<open>A log directory with three dated files and one file whose name is not a date.\<close>

definition dated_fs :: filesystem where
  "dated_fs =
     \<lparr>entries = [(''2024-03-05.log'', 0), (''2024-03-08.log'', 1), (''2024-03-10.log'', 2),
                 (''notes.log'', 3)],
      contents = (\<lambda>i. []), descriptors = [], next_inode = 4, next_fd = 0\<rparr>"

text \<open>A storage with the given capacity, persistence flag and directory, as the constructor builds it.\<close>

definition storage_with :: "nat \<Rightarrow> bool \<Rightarrow> filesystem \<Rightarrow> LogStorage" where
  "storage_with cap persist f =
     \<lparr>config = default_config\<lparr>max_memory_logs := int cap, write_to_file := persist\<rparr>,
      buffer = \<lparr>maxlen = cap, elems = []\<rparr>, listeners = [], next_queue = 0,
      current_log_file = None, file_handle = None, telegram_notifier = None, fs = f\<rparr>"


section \<open>Properties\<close>

subsection \<open>What each private step leaves alone\<close>

lemma notify_fields [simp]:
  "buffer (LogStorage_notify e s) = buffer s"
  "config (LogStorage_notify e s) = config s"
  "fs (LogStorage_notify e s) = fs s"
  "file_handle (LogStorage_notify e s) = file_handle s"
  "current_log_file (LogStorage_notify e s) = current_log_file s"
  "telegram_notifier (LogStorage_notify e s) = telegram_notifier s"
  "next_queue (LogStorage_notify e s) = next_queue s"
  by (simp_all add: LogStorage_notify_def)

lemma rotate_fields [simp]:
  "buffer (LogStorage_rotate_log_file p s) = buffer s"
  "config (LogStorage_rotate_log_file p s) = config s"
  "listeners (LogStorage_rotate_log_file p s) = listeners s"
  "telegram_notifier (LogStorage_rotate_log_file p s) = telegram_notifier s"
  "next_queue (LogStorage_rotate_log_file p s) = next_queue s"
  by (simp_all add: LogStorage_rotate_log_file_def Let_def split: prod.splits)

lemma write_to_file_fields [simp]:
  "buffer (snd (LogStorage_write_to_file e s)) = buffer s"
  "config (snd (LogStorage_write_to_file e s)) = config s"
  "listeners (snd (LogStorage_write_to_file e s)) = listeners s"
  "telegram_notifier (snd (LogStorage_write_to_file e s)) = telegram_notifier s"
  "next_queue (snd (LogStorage_write_to_file e s)) = next_queue s"
  by (simp_all add: LogStorage_write_to_file_def Let_def split: option.splits sum.splits)

text \<open>The state after \<open>add_entry\<close>, up to the notifier's queue.\<close>

lemma add_entry_state:
  "\<exists>tn. snd (add_entry now msg s) =
     (let e = entry_of (now, msg);
          s2 = LogStorage_notify e (s\<lparr>buffer := deque_append e (buffer s)\<rparr>)
      in if write_to_file (config s) then snd (LogStorage_write_to_file e s2) else s2)
     \<lparr>telegram_notifier := tn\<rparr>"
proof -
  let ?e = "entry_of (now, msg)"
  let ?s2 = "LogStorage_notify ?e (s\<lparr>buffer := deque_append ?e (buffer s)\<rparr>)"
  show ?thesis
  proof (cases "write_to_file (config s)")
    case False
    then show ?thesis
      by (auto simp: add_entry_def entry_of_def Let_def)
  next
    case True
    obtain r s3 where w: "LogStorage_write_to_file ?e ?s2 = (r, s3)"
      by (cases "LogStorage_write_to_file ?e ?s2")
    show ?thesis
    proof (cases r)
      case None
      with True w show ?thesis
        by (auto simp: add_entry_def entry_of_def Let_def)
    next
      case (Some err)
      with True w have "snd (add_entry now msg s) = s3\<lparr>telegram_notifier := telegram_notifier s3\<rparr>"
        by (simp add: add_entry_def entry_of_def Let_def)
      with True w show ?thesis
        by (intro exI [of _ "telegram_notifier s3"]) (simp add: Let_def)
    qed
  qed
qed

lemma add_entry_buffer:
  "buffer (snd (add_entry now msg s)) = deque_append (entry_of (now, msg)) (buffer s)"
  using add_entry_state [of now msg s] by (auto simp: Let_def)

lemma add_entry_config: "config (snd (add_entry now msg s)) = config s"
  using add_entry_state [of now msg s] by (auto simp: Let_def)

lemma add_entry_listeners:
  "listeners (snd (add_entry now msg s)) = listeners (LogStorage_notify (entry_of (now, msg)) s)"
  using add_entry_state [of now msg s] by (auto simp: Let_def LogStorage_notify_def)

subsection \<open>The ring buffer\<close>

lemma deque_append_maxlen [simp]: "maxlen (deque_append x d) = maxlen d"
  by (simp add: deque_append_def Let_def)

lemma deque_append_window:
  assumes "elems d = drop (length xs - maxlen d) xs"
  shows "elems (deque_append x d) = drop (length (xs @ [x]) - maxlen d) (xs @ [x])"
proof (cases "length xs < maxlen d")
  case True
  with assms show ?thesis by (simp add: deque_append_def Let_def)
next
  case False
  show ?thesis
  proof (cases "maxlen d = 0")
    case True
    with assms show ?thesis by (simp add: deque_append_def Let_def)
  next
    case pos: False
    define k where "k = length xs - maxlen d"
    have k: "k < length xs" "length xs - k = maxlen d"
      using False pos by (simp_all add: k_def)
    have "tl (drop k xs @ [x]) = drop (Suc k) xs @ [x]"
      using Cons_nth_drop_Suc [OF k(1), symmetric] by simp
    moreover have "Suc (length xs) - maxlen d = Suc k"
      using False by (simp add: k_def)
    ultimately show ?thesis
      using assms k by (simp add: deque_append_def Let_def k_def)
  qed
qed

lemma add_entries_snoc:
  "add_entries (calls @ [c]) s = snd (add_entry (fst c) (snd c) (add_entries calls s))"
  by (simp add: add_entries_def split: prod.splits)

lemma add_entries_maxlen: "maxlen (buffer (add_entries calls s)) = maxlen (buffer s)"
  by (induction calls rule: rev_induct) (simp_all add: add_entries_snoc add_entry_buffer, simp add: add_entries_def)

lemma add_entries_window:
  assumes "elems (buffer s) = []"
  shows "elems (buffer (add_entries calls s)) =
         drop (length calls - maxlen (buffer s)) (map entry_of calls)"
proof (induction calls rule: rev_induct)
  case Nil
  then show ?case using assms by (simp add: add_entries_def)
next
  case (snoc c calls)
  have "elems (deque_append (entry_of c) (buffer (add_entries calls s))) =
        drop (length (map entry_of calls @ [entry_of c]) - maxlen (buffer (add_entries calls s)))
          (map entry_of calls @ [entry_of c])"
    by (rule deque_append_window) (simp add: snoc.IH add_entries_maxlen)
  then show ?case
    by (simp add: add_entries_snoc add_entry_buffer add_entries_maxlen)
qed

lemma init_buffer:
  assumes "LogStorage_init cfg tn f = Inr s"
  shows "0 \<le> max_memory_logs cfg" "maxlen (buffer s) = nat (max_memory_logs cfg)"
    "elems (buffer s) = []"
  using assms by (auto simp: LogStorage_init_def deque_new_def split: if_splits)

lemma get_recent_capacity:
  assumes "length (elems (buffer s)) \<le> c"
  shows "get_recent (int c) s = map to_dict (elems (buffer s))"
  using assms by (simp add: get_recent_def slice_from_def)



subsection \<open>Claim C1: the ring buffer holds the last entries\<close>

text \<open>
  C1. For a storage built with capacity \<open>C = max_memory_logs\<close> and any sequence of
  \<open>N\<close> calls of \<open>add_entry\<close>: the buffer never holds more than \<open>C\<close> entries; an
  insertion into a buffer that is at capacity drops its oldest entry; and
  \<open>get_recent(C)\<close> returns the last \<open>min(N, C)\<close> entries in arrival order, the most
  recent last.
\<close>

theorem ring_buffer_keeps_last_entries:
  assumes "LogStorage_init cfg tn f = Inr s0"
  shows "length (elems (buffer (add_entries calls s0))) \<le> nat (max_memory_logs cfg) \<and>
    elems (buffer (snd (add_entry now msg (add_entries calls s0)))) =
      (if length (elems (buffer (add_entries calls s0))) < nat (max_memory_logs cfg)
       then elems (buffer (add_entries calls s0)) @ [entry_of (now, msg)]
       else tl (elems (buffer (add_entries calls s0)) @ [entry_of (now, msg)])) \<and>
    get_recent (max_memory_logs cfg) (add_entries calls s0) =
      map to_dict
        (drop (length calls - min (length calls) (nat (max_memory_logs cfg))) (map entry_of calls)) \<and>
    length (get_recent (max_memory_logs cfg) (add_entries calls s0)) =
      min (length calls) (nat (max_memory_logs cfg))"
proof -
  let ?c = "nat (max_memory_logs cfg)"
  let ?s = "add_entries calls s0"
  note init = init_buffer [OF assms]
  have window: "elems (buffer ?s) = drop (length calls - ?c) (map entry_of calls)"
    using add_entries_window [OF init(3), of calls] init(2) by simp
  have cap: "maxlen (buffer ?s) = ?c"
    using add_entries_maxlen [of calls s0] init(2) by simp
  have bounded: "length (elems (buffer ?s)) \<le> ?c"
    using window by simp
  have evict: "elems (buffer (snd (add_entry now msg ?s))) =
      (if length (elems (buffer ?s)) < ?c then elems (buffer ?s) @ [entry_of (now, msg)]
       else tl (elems (buffer ?s) @ [entry_of (now, msg)]))"
    using bounded cap by (auto simp: add_entry_buffer deque_append_def Let_def)
  have "get_recent (int ?c) ?s = map to_dict (elems (buffer ?s))"
    by (rule get_recent_capacity [OF bounded])
  then have recent: "get_recent (max_memory_logs cfg) ?s =
      map to_dict (drop (length calls - min (length calls) ?c) (map entry_of calls))"
    using init(1) window by (simp add: min_def)
  have "length (get_recent (max_memory_logs cfg) ?s) = min (length calls) ?c"
    unfolding recent by simp
  with bounded evict recent show ?thesis by blast
qed

theorem ring_buffer_keeps_last_entries_witness:
  "LogStorage_init (default_config\<lparr>max_memory_logs := 2\<rparr>) None empty_fs =
     Inr (storage_with 2 True empty_fs) \<and>
   get_recent 2 (add_entries [(march_10, str ''one''), (march_10, str ''two''), (march_11, str ''three'')]
       (storage_with 2 True empty_fs)) =
     map to_dict [\<lparr>timestamp = march_10, message = str ''two''\<rparr>,
                  \<lparr>timestamp = march_11, message = str ''three''\<rparr>]"
proof -
  have init: "LogStorage_init (default_config\<lparr>max_memory_logs := 2\<rparr>) None empty_fs =
     Inr (storage_with 2 True empty_fs)"
    by (simp add: LogStorage_init_def deque_new_def storage_with_def default_config_def)
  show ?thesis
    using init ring_buffer_keeps_last_entries [OF init,
        of "[(march_10, str ''one''), (march_10, str ''two''), (march_11, str ''three'')]"]
    by (simp add: entry_of_def rstrip_def str_def)
qed

subsection \<open>Claim C8: clearing the buffer changes nothing else\<close>

text \<open>
  C8. After \<open>clear_buffer\<close> the buffer is empty, and the log directory with the text
  of its files, the open file handle, the current-file marker, the subscriber registry and
  the entries waiting in every subscriber's queue are what they were.
\<close>

theorem clear_buffer_only_empties_buffer:
  "elems (buffer (clear_buffer s)) = [] \<and>
   get_recent limit (clear_buffer s) = [] \<and>
   maxlen (buffer (clear_buffer s)) = maxlen (buffer s) \<and>
   fs (clear_buffer s) = fs s \<and>
   file_text (fs (clear_buffer s)) name = file_text (fs s) name \<and>
   file_handle (clear_buffer s) = file_handle s \<and>
   current_log_file (clear_buffer s) = current_log_file s \<and>
   listeners (clear_buffer s) = listeners s \<and>
   map (qitems \<circ> snd) (listeners (clear_buffer s)) = map (qitems \<circ> snd) (listeners s) \<and>
   telegram_notifier (clear_buffer s) = telegram_notifier s \<and>
   config (clear_buffer s) = config s"
  by (simp add: clear_buffer_def deque_clear_def get_recent_def slice_from_def)

subsection \<open>Claim C10: retention is gated by the persistence flag\<close>

text \<open>
  C10. When \<open>write_to_file\<close> is false, \<open>cleanup_files\<close> deletes nothing and changes
  nothing, whatever \<open>keep_days\<close> is and whatever files the log directory holds.
\<close>

theorem cleanup_files_disabled_persistence:
  assumes "\<not> write_to_file (config s)"
  shows "cleanup_files now s = s"
  using assms by (simp add: cleanup_files_def)

theorem cleanup_files_disabled_persistence_witness:
  "\<not> write_to_file (config (storage_with 10 False dated_fs)) \<and>
   0 < keep_days (config (storage_with 10 False dated_fs)) \<and>
   cleanup_files march_10 (storage_with 10 False dated_fs) = storage_with 10 False dated_fs \<and>
   map fst (entries (fs (cleanup_files march_10 (storage_with 10 False dated_fs)))) =
     [''2024-03-05.log'', ''2024-03-08.log'', ''2024-03-10.log'', ''notes.log'']"
proof -
  have off: "\<not> write_to_file (config (storage_with 10 False dated_fs))"
    by (simp add: storage_with_def)
  show ?thesis
    using off cleanup_files_disabled_persistence [OF off, of march_10]
    by (simp add: storage_with_def default_config_def dated_fs_def)
qed

subsection \<open>Claim C9: a limit of zero selects the whole buffer\<close>

text \<open>
  C9. \<open>get_recent(limit)\<close> with \<open>limit \<ge> 1\<close> returns the last \<open>min(limit, length)\<close>
  entries of the buffer; with \<open>limit = 0\<close> it returns the whole buffer, because the slice
  \<open>[-0:]\<close> starts at index 0. The HTTP route refuses a limit below 1 (and above 5000), so
  it never passes 0 on.
\<close>

theorem get_recent_limit_zero_returns_all:
  "(1 \<le> limit \<longrightarrow>
      get_recent limit s =
        map to_dict (drop (length (elems (buffer s)) - min (nat limit) (length (elems (buffer s))))
          (elems (buffer s))) \<and>
      length (get_recent limit s) = min (nat limit) (length (elems (buffer s)))) \<and>
   get_recent 0 s = map to_dict (elems (buffer s)) \<and>
   read_logs (Some 0) s = Inl RequestValidationError \<and>
   (1 \<le> limit \<and> limit \<le> 5000 \<longrightarrow> read_logs (Some limit) s = Inr (get_recent limit s))"
  by (auto simp: get_recent_def slice_from_def read_logs_def min_def nat_diff_distrib')

theorem get_recent_limit_zero_returns_all_witness:
  "(1::int) \<le> 2 \<and>
   get_recent 2 ((storage_with 5 False empty_fs)
       \<lparr>buffer := \<lparr>maxlen = 5, elems = [\<lparr>timestamp = march_10, message = str ''one''\<rparr>,
          \<lparr>timestamp = march_10, message = str ''two''\<rparr>,
          \<lparr>timestamp = march_11, message = str ''three''\<rparr>]\<rparr>\<rparr>) =
     map to_dict [\<lparr>timestamp = march_10, message = str ''two''\<rparr>,
                  \<lparr>timestamp = march_11, message = str ''three''\<rparr>] \<and>
   get_recent 0 ((storage_with 5 False empty_fs)
       \<lparr>buffer := \<lparr>maxlen = 5, elems = [\<lparr>timestamp = march_10, message = str ''one''\<rparr>,
          \<lparr>timestamp = march_10, message = str ''two''\<rparr>,
          \<lparr>timestamp = march_11, message = str ''three''\<rparr>]\<rparr>\<rparr>) =
     map to_dict [\<lparr>timestamp = march_10, message = str ''one''\<rparr>,
                  \<lparr>timestamp = march_10, message = str ''two''\<rparr>,
                  \<lparr>timestamp = march_11, message = str ''three''\<rparr>] \<and>
   read_logs (Some 0) (storage_with 5 False empty_fs) = Inl RequestValidationError"
  using get_recent_limit_zero_returns_all [of 2 "(storage_with 5 False empty_fs)
       \<lparr>buffer := \<lparr>maxlen = 5, elems = [\<lparr>timestamp = march_10, message = str ''one''\<rparr>,
          \<lparr>timestamp = march_10, message = str ''two''\<rparr>,
          \<lparr>timestamp = march_11, message = str ''three''\<rparr>]\<rparr>\<rparr>"]
    get_recent_limit_zero_returns_all [of 2 "storage_with 5 False empty_fs"]
  by simp

subsection \<open>Decimal text\<close>



lemma str_append [simp]: "str (a @ b) = str a @ str b"
  by (simp add: str_def)

lemma length_str [simp]: "length (str a) = length a"
  by (simp add: str_def)


lemma str_Nil [simp]: "str [] = []"
  by (simp add: str_def)

lemma dec_not_Nil [simp]: "dec n \<noteq> []"
  by (subst dec.simps) simp










subsection \<open>The serialized timestamp\<close>











subsection \<open>Claim C6: serializing an entry and reading it back\<close>





subsection \<open>File names and dates\<close>


subsection \<open>Subscriber queues\<close>

text \<open>What a queue holds after a non-blocking put that may be refused.\<close>

lemma notify_listeners:
  "listeners (LogStorage_notify e s) =
     map (\<lambda>(h, q). (h, if full q then q else q\<lparr>qitems := qitems q @ [e]\<rparr>)) (listeners s)"
  by (auto simp: LogStorage_notify_def put_nowait_def)

lemma add_entry_listeners_map:
  "listeners (snd (add_entry now msg s)) =
     map (\<lambda>(h, q). (h, if full q then q else q\<lparr>qitems := qitems q @ [entry_of (now, msg)]\<rparr>))
       (listeners s)"
  by (simp add: add_entry_listeners notify_listeners)

lemma add_entries_listener_ids:
  "map fst (listeners (add_entries calls s)) = map fst (listeners s)"
proof (induction calls rule: rev_induct)
  case Nil
  then show ?case by (simp add: add_entries_def)
next
  case (snoc c calls)
  have "map fst (listeners (snd (add_entry (fst c) (snd c) (add_entries calls s)))) =
        map fst (listeners (add_entries calls s))"
    by (simp add: add_entry_listeners_map case_prod_unfold comp_def)
  with snoc show ?case by (simp add: add_entries_snoc)
qed

lemma add_entries_bounded_queue:
  assumes "i < length (listeners s)" and "listeners s ! i = (h, q)"
    and "0 < maxsize q" and "length (qitems q) \<le> nat (maxsize q)"
  shows "listeners (add_entries calls s) ! i =
     (h, q\<lparr>qitems := take (nat (maxsize q)) (qitems q @ map entry_of calls)\<rparr>)"
proof (induction calls rule: rev_induct)
  case Nil
  then show ?case using assms by (simp add: add_entries_def)
next
  case (snoc c calls)
  let ?s = "add_entries calls s"
  let ?q = "q\<lparr>qitems := take (nat (maxsize q)) (qitems q @ map entry_of calls)\<rparr>"
  have len: "i < length (listeners ?s)"
    using assms(1) add_entries_listener_ids [of calls s] by (metis length_map)
  have step: "listeners (add_entries (calls @ [c]) s) ! i =
      (h, if full ?q then ?q else ?q\<lparr>qitems := qitems ?q @ [entry_of c]\<rparr>)"
    using len snoc.IH by (simp add: add_entries_snoc add_entry_listeners_map)
  show ?case
  proof (cases "full ?q")
    case True
    then have "nat (maxsize q) \<le> length (qitems q @ map entry_of calls)"
      using assms(3) by (simp add: full_def min_def split: if_splits)
    then show ?thesis using step True by simp
  next
    case False
    then have "length (qitems q @ map entry_of calls) < nat (maxsize q)"
      using assms(3) by (simp add: full_def min_def split: if_splits)
    then show ?thesis using step False by simp
  qed
qed

lemma add_entries_unbounded_queue:
  assumes "i < length (listeners s)" and "listeners s ! i = (h, q)" and "maxsize q \<le> 0"
  shows "listeners (add_entries calls s) ! i = (h, q\<lparr>qitems := qitems q @ map entry_of calls\<rparr>)"
proof (induction calls rule: rev_induct)
  case Nil
  then show ?case using assms by (simp add: add_entries_def)
next
  case (snoc c calls)
  have len: "i < length (listeners (add_entries calls s))"
    using assms(1) add_entries_listener_ids [of calls s] by (metis length_map)
  show ?case
    using len snoc.IH assms(3)
    by (simp add: add_entries_snoc add_entry_listeners_map full_def)
qed

subsection \<open>Claim C3: a full subscriber queue refuses the new entry\<close>

text \<open>
  C3, as amended. A subscriber's queue of capacity \<open>Q \<ge> 1\<close> that is not drained holds,
  after any sequence of \<open>add_entry\<close> calls, the first \<open>Q\<close> of the entries it held
  followed by the ingested ones: once it is full, the entry that is dropped for this
  subscriber is the newly pushed one, not the oldest queued one. So when more than \<open>Q\<close>
  entries are waiting or ingested, exactly \<open>Q\<close> remain deliverable, and they are the
  oldest run since the last drain. A queue with \<open>Q \<le> 0\<close> is unbounded and keeps every
  entry. No call removes a subscriber from the registry.
\<close>

theorem subscriber_queue_keeps_oldest:
  assumes "i < length (listeners s)" and "listeners s ! i = (h, q)"
    and "maxsize q \<le> 0 \<or> length (qitems q) \<le> nat (maxsize q)"
  shows "map fst (listeners (add_entries calls s)) = map fst (listeners s) \<and>
    fst (listeners (add_entries calls s) ! i) = h \<and>
    maxsize (snd (listeners (add_entries calls s) ! i)) = maxsize q \<and>
    qitems (snd (listeners (add_entries calls s) ! i)) =
      (if 0 < maxsize q then take (nat (maxsize q)) (qitems q @ map entry_of calls)
       else qitems q @ map entry_of calls) \<and>
    (0 < maxsize q \<and> nat (maxsize q) \<le> length (qitems q) + length calls \<longrightarrow>
       length (qitems (snd (listeners (add_entries calls s) ! i))) = nat (maxsize q))"
proof (cases "0 < maxsize q")
  case True
  with assms(3) have len: "length (qitems q) \<le> nat (maxsize q)" by simp
  from add_entries_bounded_queue [OF assms(1,2) True len, of calls]
  show ?thesis using True len by (simp add: add_entries_listener_ids)
next
  case False
  then have "maxsize q \<le> 0" by simp
  from add_entries_unbounded_queue [OF assms(1,2) this, of calls]
  show ?thesis using False by (simp add: add_entries_listener_ids)
qed

lemmas storage_eval =
  add_entries_def add_entry_def subscribe_def LogStorage_notify_def put_nowait_def full_def
  deque_append_def storage_with_def default_config_def rstrip_def str_def Let_def

theorem subscriber_queue_keeps_oldest_witness:
  "(0::nat) < length (listeners (snd (subscribe 2 (storage_with 10 False empty_fs)))) \<and>
   listeners (snd (subscribe 2 (storage_with 10 False empty_fs))) ! 0 =
     (0, \<lparr>maxsize = 2, qitems = []\<rparr>) \<and>
   map (map message \<circ> qitems \<circ> snd)
     (listeners (add_entries [(march_10, str ''a''), (march_10, str ''b''), (march_11, str ''c'')]
        (snd (subscribe 2 (storage_with 10 False empty_fs))))) = [[str ''a'', str ''b'']]"
proof -
  let ?s = "snd (subscribe 2 (storage_with 10 False empty_fs))"
  have a: "0 < length (listeners ?s)"
    and b: "listeners ?s ! 0 = (0, \<lparr>maxsize = 2, qitems = []\<rparr>)"
    by (simp_all add: subscribe_def storage_with_def Let_def)
  have c: "maxsize \<lparr>maxsize = 2, qitems = ([] :: LogEntry list)\<rparr> \<le> 0 \<or>
      length (qitems \<lparr>maxsize = 2, qitems = ([] :: LogEntry list)\<rparr>) \<le>
        nat (maxsize \<lparr>maxsize = 2, qitems = ([] :: LogEntry list)\<rparr>)"
    by simp
  have ids: "map fst (listeners ?s) = [0]"
    by (simp add: subscribe_def storage_with_def Let_def)
  from subscriber_queue_keeps_oldest [OF a b c,
      of "[(march_10, str ''a''), (march_10, str ''b''), (march_11, str ''c'')]"]
  have "map fst (listeners (add_entries [(march_10, str ''a''), (march_10, str ''b''), (march_11, str ''c'')] ?s)) = [0]"
    and "qitems (snd (listeners (add_entries [(march_10, str ''a''), (march_10, str ''b''), (march_11, str ''c'')] ?s) ! 0)) =
      [entry_of (march_10, str ''a''), entry_of (march_10, str ''b'')]"
    using ids by simp_all
  then have "map (map message \<circ> qitems \<circ> snd)
     (listeners (add_entries [(march_10, str ''a''), (march_10, str ''b''), (march_11, str ''c'')] ?s)) =
     [[str ''a'', str ''b'']]"
    by (cases "listeners (add_entries [(march_10, str ''a''), (march_10, str ''b''), (march_11, str ''c'')] ?s)")
      (simp_all add: entry_of_def rstrip_def str_def)
  with a b show ?thesis by simp
qed

theorem subscriber_queue_oldest_dropped_counterexample:
  "map (map message \<circ> qitems \<circ> snd)
     (listeners (add_entries [(march_10, str ''a''), (march_11, str ''b'')]
        (snd (subscribe 1 (storage_with 10 False empty_fs))))) = [[str ''a'']] \<and>
   map (map message \<circ> qitems \<circ> snd)
     (listeners (add_entries [(march_10, str ''a''), (march_11, str ''b'')]
        (snd (subscribe 1 (storage_with 10 False empty_fs))))) \<noteq> [[str ''b'']]"
  by (simp add: storage_eval)

subsection \<open>Claim C7: one datagram with three lines and an empty one\<close>

text \<open>
  C7. With no allow-list configured, the datagram \<open>"a\nb\n\nc"\<close> is decoded and split
  into the lines \<open>a\<close>, \<open>b\<close>, the empty line and \<open>c\<close>; the empty line is skipped and
  \<open>add_entry\<close> is started for \<open>a\<close>, \<open>b\<close>, \<open>c\<close> in this order, which puts three
  entries with these messages, in this order, into the buffer.
\<close>

theorem datagram_three_lines:
  assumes "udp_whitelist cfg = []" and "3 \<le> max_memory_logs cfg"
    and "LogStorage_init cfg tn f = Inr s0"
  shows "splitlines (decode [CHR ''a'', CHR 0x0A, CHR ''b'', CHR 0x0A, CHR 0x0A, CHR ''c'']) =
      [str ''a'', str ''b'', [], str ''c''] \<and>
    datagram_received cfg [CHR ''a'', CHR 0x0A, CHR ''b'', CHR 0x0A, CHR 0x0A, CHR ''c''] host =
      [str ''a'', str ''b'', str ''c''] \<and>
    elems (buffer (add_entries
        (zip [t1, t2, t3]
           (datagram_received cfg [CHR ''a'', CHR 0x0A, CHR ''b'', CHR 0x0A, CHR 0x0A, CHR ''c''] host))
        s0)) =
      [\<lparr>timestamp = t1, message = str ''a''\<rparr>, \<lparr>timestamp = t2, message = str ''b''\<rparr>,
       \<lparr>timestamp = t3, message = str ''c''\<rparr>]"
proof -
  let ?payload = "[CHR ''a'', CHR 0x0A, CHR ''b'', CHR 0x0A, CHR 0x0A, CHR ''c'']"
  have split: "splitlines (decode ?payload) = [str ''a'', str ''b'', [], str ''c'']"
    by (simp add: decode_def splitlines_def is_linebreak_def str_def)
  have lines: "datagram_received cfg ?payload host = [str ''a'', str ''b'', str ''c'']"
    using assms(1) by (simp add: datagram_received_def split Let_def) (simp add: str_def)
  note init = init_buffer [OF assms(3)]
  have "elems (buffer (add_entries (zip [t1, t2, t3] [str ''a'', str ''b'', str ''c'']) s0)) =
      drop (length (zip [t1, t2, t3] [str ''a'', str ''b'', str ''c'']) - maxlen (buffer s0))
        (map entry_of (zip [t1, t2, t3] [str ''a'', str ''b'', str ''c'']))"
    by (rule add_entries_window [OF init(3)])
  moreover have "3 \<le> maxlen (buffer s0)"
    using init(2) assms(2) by simp
  ultimately have "elems (buffer (add_entries (zip [t1, t2, t3] [str ''a'', str ''b'', str ''c'']) s0)) =
      [\<lparr>timestamp = t1, message = str ''a''\<rparr>, \<lparr>timestamp = t2, message = str ''b''\<rparr>,
       \<lparr>timestamp = t3, message = str ''c''\<rparr>]"
    by (simp add: entry_of_def rstrip_def str_def)
  with split lines show ?thesis by simp
qed

theorem datagram_three_lines_witness:
  "udp_whitelist default_config = [] \<and> 3 \<le> max_memory_logs default_config \<and>
   LogStorage_init default_config None empty_fs = Inr (storage_with 10000 True empty_fs) \<and>
   datagram_received default_config [CHR ''a'', CHR 0x0A, CHR ''b'', CHR 0x0A, CHR 0x0A, CHR ''c'']
       ''192.0.2.7'' = [str ''a'', str ''b'', str ''c''] \<and>
   map message (elems (buffer (add_entries
        (zip [march_10, march_10, march_11]
           (datagram_received default_config
              [CHR ''a'', CHR 0x0A, CHR ''b'', CHR 0x0A, CHR 0x0A, CHR ''c''] ''192.0.2.7''))
        (storage_with 10000 True empty_fs)))) = [str ''a'', str ''b'', str ''c'']"
proof -
  have a: "udp_whitelist default_config = []" and b: "3 \<le> max_memory_logs default_config"
    by (simp_all add: default_config_def)
  have c: "LogStorage_init default_config None empty_fs = Inr (storage_with 10000 True empty_fs)"
    by (simp add: LogStorage_init_def deque_new_def storage_with_def default_config_def)
  note inst = datagram_three_lines [OF a b c, of "''192.0.2.7''" march_10 march_10 march_11]
  have "map message (elems (buffer (add_entries
        (zip [march_10, march_10, march_11]
           (datagram_received default_config
              [CHR ''a'', CHR 0x0A, CHR ''b'', CHR 0x0A, CHR 0x0A, CHR ''c''] ''192.0.2.7''))
        (storage_with 10000 True empty_fs)))) = [str ''a'', str ''b'', str ''c'']"
    by (subst conjunct2 [OF conjunct2 [OF inst]]) simp
  with a b c conjunct1 [OF conjunct2 [OF inst]] show ?thesis by blast
qed

subsection \<open>The file writer\<close>

lemma writer_inv_cases:
  assumes "writer_inv s"
  obtains "file_handle s = None" "descriptors (fs s) = []"
  | h i where "file_handle s = Some h" "descriptors (fs s) = [(h, i)]" "h < next_fd (fs s)"
proof (cases "file_handle s")
  case None
  with assms have "descriptors (fs s) = []" by (simp add: writer_inv_def)
  with None that(1) show ?thesis by blast
next
  case (Some h)
  with assms have m: "map fst (descriptors (fs s)) = [h]" by (simp add: writer_inv_def)
  then obtain i where d: "descriptors (fs s) = [(h, i)]"
    by (cases "descriptors (fs s)") auto
  with assms have "h < next_fd (fs s)" by (simp add: writer_inv_def)
  with Some d that(2) show ?thesis by blast
qed

lemma rotate_closes_all:
  assumes "writer_inv s"
  shows "descriptors (case file_handle s of Some h \<Rightarrow> fs_close h (fs s) | None \<Rightarrow> fs s) = []"
  using assms by (rule writer_inv_cases) (simp_all add: fs_close_def)

lemma rotate_effect:
  assumes "writer_inv s"
  shows "file_handle (LogStorage_rotate_log_file p s) = Some (next_fd (fs s))"
    and "current_log_file (LogStorage_rotate_log_file p s) = Some p"
    and "next_fd (fs (LogStorage_rotate_log_file p s)) = Suc (next_fd (fs s))"
    and "descriptors (fs (LogStorage_rotate_log_file p s)) =
      [(next_fd (fs s),
        case map_of (entries (fs s)) p of Some i \<Rightarrow> i | None \<Rightarrow> next_inode (fs s))]"
    and "entries (fs (LogStorage_rotate_log_file p s)) =
      (case map_of (entries (fs s)) p of
         Some i \<Rightarrow> entries (fs s)
       | None \<Rightarrow> entries (fs s) @ [(p, next_inode (fs s))])"
    and "contents (fs (LogStorage_rotate_log_file p s)) =
      (case map_of (entries (fs s)) p of
         Some i \<Rightarrow> contents (fs s)
       | None \<Rightarrow> (contents (fs s))(next_inode (fs s) := []))"
  using rotate_closes_all [OF assms]
  by (auto simp: LogStorage_rotate_log_file_def fs_open_append_def fs_close_def Let_def
      split: option.splits)

lemma rotate_file_text:
  assumes "writer_inv s"
  shows "file_text (fs (LogStorage_rotate_log_file p s)) p =
     Some (case file_text (fs s) p of None \<Rightarrow> [] | Some t \<Rightarrow> t)"
    and "map_of (entries (fs (LogStorage_rotate_log_file p s))) p =
     map_of (descriptors (fs (LogStorage_rotate_log_file p s))) (next_fd (fs s))"
  by (auto simp: file_text_def rotate_effect [OF assms] map_add_def split: option.splits)











subsection \<open>The handle discipline holds after every call\<close>

lemma writer_inv_cong:
  assumes "fs s' = fs s" and "file_handle s' = file_handle s"
  shows "writer_inv s' = writer_inv s"
  using assms by (simp add: writer_inv_def)




lemma unlink_fold_frame:
  "descriptors (foldl (\<lambda>f name. case g name of None \<Rightarrow> f
       | Some d \<Rightarrow> if P d then fs_unlink name f else f) f0 names) = descriptors f0 \<and>
   next_fd (foldl (\<lambda>f name. case g name of None \<Rightarrow> f
       | Some d \<Rightarrow> if P d then fs_unlink name f else f) f0 names) = next_fd f0 \<and>
   contents (foldl (\<lambda>f name. case g name of None \<Rightarrow> f
       | Some d \<Rightarrow> if P d then fs_unlink name f else f) f0 names) = contents f0 \<and>
   next_inode (foldl (\<lambda>f name. case g name of None \<Rightarrow> f
       | Some d \<Rightarrow> if P d then fs_unlink name f else f) f0 names) = next_inode f0"
  by (induction names arbitrary: f0) (simp_all add: fs_unlink_def split: option.splits)

lemma cleanup_files_frame:
  "descriptors (fs (cleanup_files now s)) = descriptors (fs s)"
  "next_fd (fs (cleanup_files now s)) = next_fd (fs s)"
  "contents (fs (cleanup_files now s)) = contents (fs s)"
  "file_handle (cleanup_files now s) = file_handle s"
  "current_log_file (cleanup_files now s) = current_log_file s"
  "buffer (cleanup_files now s) = buffer s"
  "listeners (cleanup_files now s) = listeners s"
  by (simp_all add: cleanup_files_def Let_def unlink_fold_frame)






subsection \<open>The result of add_entry\<close>













subsection \<open>Claim C4: one open handle, rotation on a change of date\<close>









subsection \<open>Claim C2: what add_entry does to the message\<close>




subsection \<open>The retention sweep\<close>

lemma unlink_fold_entries:
  "entries (foldl (\<lambda>f name. case g name of None \<Rightarrow> f
       | Some d \<Rightarrow> if P d then fs_unlink name f else f) f0 names) =
   filter (\<lambda>(n, i). \<not> (n \<in> set names \<and> (case g n of None \<Rightarrow> False | Some d \<Rightarrow> P d)))
     (entries f0)"
proof (induction names arbitrary: f0)
  case Nil
  then show ?case by simp
next
  case (Cons a names)
  let ?f1 = "case g a of None \<Rightarrow> f0 | Some d \<Rightarrow> if P d then fs_unlink a f0 else f0"
  have "entries ?f1 =
      filter (\<lambda>(n, i). \<not> (n = a \<and> (case g n of None \<Rightarrow> False | Some d \<Rightarrow> P d))) (entries f0)"
    by (auto simp: fs_unlink_def split: option.splits intro!: filter_cong)
  then show ?case
    by (simp add: Cons.IH [of ?f1]) (auto intro!: filter_cong)
qed

lemma cleanup_files_entries:
  assumes "write_to_file (config s)" and "0 < keep_days (config s)"
  shows "entries (fs (cleanup_files now s)) =
    filter (\<lambda>(n, i). \<not> expired (toordinal now - keep_days (config s)) n) (entries (fs s))"
proof -
  have "entries (fs (cleanup_files now s)) =
      filter (\<lambda>(n, i). \<not> (n \<in> set (glob_log (fs s)) \<and>
          (case strptime_date (stem n) of None \<Rightarrow> False
           | Some d \<Rightarrow> toordinal d < toordinal now - keep_days (config s))))
        (entries (fs s))"
    using assms by (simp add: cleanup_files_def Let_def unlink_fold_entries)
  also have "\<dots> = filter (\<lambda>(n, i). \<not> expired (toordinal now - keep_days (config s)) n)
      (entries (fs s))"
    by (rule filter_cong) (force simp: expired_def glob_log_def)+
  finally show ?thesis .
qed

lemmas date_eval =
  expired_def endswith_def stem_def strptime_date_def match_month_day_def month_alts_def
  day_alts_def is_digit_def digit_val_def in_range_def valid_date_def days_in_month_def
  is_leap_def toordinal_def days_before_year_def days_before_month_def upt_rec

subsection \<open>Claim C5: which files a retention sweep deletes\<close>

text \<open>
  C5, as amended. With persistence on and \<open>keep_days > 0\<close>, a sweep removes from the
  log directory exactly the names that end in \<open>.log\<close> and whose stem parses as a date
  with a day number below that of today minus \<open>keep_days\<close>; the other names, among them
  every name that does not parse, stay as they are and in their order, and no file text
  changes. With \<open>keep_days \<le> 0\<close> the sweep changes nothing, and with persistence off
  it changes nothing either. With \<open>keep_days = 3\<close>, a file dated five days before today
  is deleted, files dated two days before today and today are kept.
\<close>

theorem retention_sweep:
  "(write_to_file (config s) \<and> 0 < keep_days (config s) \<longrightarrow>
      entries (fs (cleanup_files now s)) =
        filter (\<lambda>(n, i). \<not> expired (toordinal now - keep_days (config s)) n) (entries (fs s)) \<and>
      contents (fs (cleanup_files now s)) = contents (fs s) \<and>
      descriptors (fs (cleanup_files now s)) = descriptors (fs s)) \<and>
   (keep_days (config s) \<le> 0 \<longrightarrow> cleanup_files now s = s) \<and>
   (expired cutoff name \<longleftrightarrow>
      endswith name ''.log'' \<and>
      (\<exists>d. strptime_date (stem name) = Some d \<and> toordinal d < cutoff)) \<and>
   (strptime_date (stem name) = None \<longrightarrow> \<not> expired cutoff name) \<and>
   (endswith name ''.log'' \<and> strptime_date (stem name) = Some d \<longrightarrow>
      (toordinal d = toordinal now - 5 \<longrightarrow> expired (toordinal now - 3) name) \<and>
      (toordinal d = toordinal now - 2 \<longrightarrow> \<not> expired (toordinal now - 3) name) \<and>
      (toordinal d = toordinal now \<longrightarrow> \<not> expired (toordinal now - 3) name)) \<and>
   (\<not> write_to_file (config s) \<longrightarrow> cleanup_files now s = s)"
proof (intro conjI impI)
  assume a: "write_to_file (config s) \<and> 0 < keep_days (config s)"
  then show "entries (fs (cleanup_files now s)) =
        filter (\<lambda>(n, i). \<not> expired (toordinal now - keep_days (config s)) n) (entries (fs s))"
    by (simp add: cleanup_files_entries)
  show "contents (fs (cleanup_files now s)) = contents (fs s)"
    by (rule cleanup_files_frame)
  show "descriptors (fs (cleanup_files now s)) = descriptors (fs s)"
    by (rule cleanup_files_frame)
next
  assume "keep_days (config s) \<le> 0"
  then show "cleanup_files now s = s" by (simp add: cleanup_files_def)
next
  show "expired cutoff name =
      (endswith name ''.log'' \<and> (\<exists>d. strptime_date (stem name) = Some d \<and> toordinal d < cutoff))"
    by (auto simp: expired_def split: option.splits)
next
  assume "strptime_date (stem name) = None"
  then show "\<not> expired cutoff name" by (simp add: expired_def)
next
  assume "endswith name ''.log'' \<and> strptime_date (stem name) = Some d"
    and "toordinal d = toordinal now - 5"
  then show "expired (toordinal now - 3) name" by (simp add: expired_def)
next
  assume "endswith name ''.log'' \<and> strptime_date (stem name) = Some d"
    and "toordinal d = toordinal now - 2"
  then show "\<not> expired (toordinal now - 3) name" by (simp add: expired_def)
next
  assume "endswith name ''.log'' \<and> strptime_date (stem name) = Some d"
    and "toordinal d = toordinal now"
  then show "\<not> expired (toordinal now - 3) name" by (simp add: expired_def)
next
  assume "\<not> write_to_file (config s)"
  then show "cleanup_files now s = s" by (simp add: cleanup_files_def)
qed

theorem retention_sweep_witness:
  "write_to_file (config (storage_with 10 True dated_fs)) \<and>
   0 < keep_days (config (storage_with 10 True dated_fs)) \<and>
   keep_days (config (storage_with 10 True dated_fs)) = 3 \<and>
   map fst (entries (fs (storage_with 10 True dated_fs))) =
     [''2024-03-05.log'', ''2024-03-08.log'', ''2024-03-10.log'', ''notes.log''] \<and>
   strptime_date (stem ''2024-03-05.log'') = Some \<lparr>year = 2024, month = 3, day = 5\<rparr> \<and>
   toordinal \<lparr>year = 2024, month = 3, day = 5\<rparr> = toordinal march_10 - 5 \<and>
   strptime_date (stem ''2024-03-08.log'') = Some \<lparr>year = 2024, month = 3, day = 8\<rparr> \<and>
   toordinal \<lparr>year = 2024, month = 3, day = 8\<rparr> = toordinal march_10 - 2 \<and>
   strptime_date (stem ''notes.log'') = None \<and>
   map fst (entries (fs (cleanup_files march_10 (storage_with 10 True dated_fs)))) =
     [''2024-03-08.log'', ''2024-03-10.log'', ''notes.log''] \<and>
   \<not> write_to_file (config (storage_with 10 False dated_fs)) \<and>
   cleanup_files march_10 (storage_with 10 False dated_fs) = storage_with 10 False dated_fs"
proof -
  let ?s = "storage_with 10 True dated_fs"
  have off: "\<not> write_to_file (config (storage_with 10 False dated_fs))"
    by (simp add: storage_with_def)
  have kept: "cleanup_files march_10 (storage_with 10 False dated_fs) = storage_with 10 False dated_fs"
    using retention_sweep [of "storage_with 10 False dated_fs" march_10] off by blast
  have a: "write_to_file (config ?s)" and b: "0 < keep_days (config ?s)"
    and k: "keep_days (config ?s) = 3"
    and names: "map fst (entries (fs ?s)) =
      [''2024-03-05.log'', ''2024-03-08.log'', ''2024-03-10.log'', ''notes.log'']"
    by (simp_all add: storage_with_def default_config_def dated_fs_def)
  have p5: "strptime_date (stem ''2024-03-05.log'') = Some \<lparr>year = 2024, month = 3, day = 5\<rparr>"
    and p8: "strptime_date (stem ''2024-03-08.log'') = Some \<lparr>year = 2024, month = 3, day = 8\<rparr>"
    and pn: "strptime_date (stem ''notes.log'') = None"
    by (simp_all add: date_eval)
  have o5: "toordinal \<lparr>year = 2024, month = 3, day = 5\<rparr> = toordinal march_10 - 5"
    and o8: "toordinal \<lparr>year = 2024, month = 3, day = 8\<rparr> = toordinal march_10 - 2"
    by (simp_all add: date_eval march_10_def)
  have x: "expired (toordinal march_10 - 3) ''2024-03-05.log''"
    "\<not> expired (toordinal march_10 - 3) ''2024-03-08.log''"
    "\<not> expired (toordinal march_10 - 3) ''2024-03-10.log''"
    "\<not> expired (toordinal march_10 - 3) ''notes.log''"
    by (simp_all add: date_eval march_10_def)
  from conjunct1 [OF retention_sweep [of ?s march_10]] a b
  have "entries (fs (cleanup_files march_10 ?s)) =
      filter (\<lambda>(n, i). \<not> expired (toordinal march_10 - keep_days (config ?s)) n) (entries (fs ?s))"
    by simp
  then have "map fst (entries (fs (cleanup_files march_10 ?s))) =
      [''2024-03-08.log'', ''2024-03-10.log'', ''notes.log'']"
    unfolding k using x by (simp add: storage_with_def dated_fs_def)
  with a b k names p5 p8 pn o5 o8 off kept show ?thesis by simp
qed

theorem retention_without_persistence_counterexample:
  "0 < keep_days (config (storage_with 10 False dated_fs)) \<and>
   strptime_date (stem ''2024-03-05.log'') = Some \<lparr>year = 2024, month = 3, day = 5\<rparr> \<and>
   toordinal \<lparr>year = 2024, month = 3, day = 5\<rparr> <
     toordinal march_10 - keep_days (config (storage_with 10 False dated_fs)) \<and>
   map fst (entries (fs (cleanup_files march_10 (storage_with 10 False dated_fs)))) =
     [''2024-03-05.log'', ''2024-03-08.log'', ''2024-03-10.log'', ''notes.log'']"
proof -
  have "strptime_date (stem ''2024-03-05.log'') = Some \<lparr>year = 2024, month = 3, day = 5\<rparr>"
    by (simp add: date_eval)
  moreover have "toordinal \<lparr>year = 2024, month = 3, day = 5\<rparr> <
     toordinal march_10 - keep_days (config (storage_with 10 False dated_fs))"
    by (simp add: date_eval march_10_def storage_with_def default_config_def)
  moreover have "map fst (entries (fs (cleanup_files march_10 (storage_with 10 False dated_fs)))) =
     [''2024-03-05.log'', ''2024-03-08.log'', ''2024-03-10.log'', ''notes.log'']"
    by (simp add: cleanup_files_def storage_with_def default_config_def dated_fs_def)
  ultimately show ?thesis by (simp add: storage_with_def default_config_def)
qed

end
